theory Spec2Isabelle
  imports Complex_Main
begin

section \<open>Errors, outcomes and the environment\<close>

text \<open>
  The resilience layer of the repository: the circuit breaker
  (\<^verbatim>\<open>src/utils/circuit-breaker.ts\<close>), the retry executor (\<^verbatim>\<open>src/utils/retry.ts\<close>) and
  the cache and provider chain of the LiteLLM adapter. Calls are modelled one at a time:
  each call runs to completion before the next one starts.

  A thrown JavaScript \<^verbatim>\<open>Error\<close> object is its message. An awaited operation either
  resolves, rejects, or is still pending when the timer of \<^verbatim>\<open>executeWithTimeout\<close> fires.
  The environment is a record whose field \<open>Date_now\<close> is what \<^verbatim>\<open>Date.now()\<close> returns;
  an operation may change every part of it.
\<close>

datatype error = Error string

datatype 'a attempt = Resolves 'a | Rejects error | Hangs

record world =
  Date_now :: int

type_synonym ('z, 'a) operation = "'z world_scheme \<Rightarrow> 'a attempt \<times> 'z world_scheme"

type_synonym ('z, 'a) settled = "'z world_scheme \<Rightarrow> (error + 'a) \<times> 'z world_scheme"

text \<open>Template literals print a number in decimal.\<close>

definition digit_char :: "nat \<Rightarrow> char" where
  "digit_char d = ''0123456789'' ! d"

function show_nat :: "nat \<Rightarrow> string" where
  "show_nat n =
     (if n < 10 then [digit_char n]
      else show_nat (n div 10) @ [digit_char (n mod 10)])"
  by pat_completeness auto
termination
  by (relation "measure (\<lambda>n. n)") auto

declare show_nat.simps [simp del]

section \<open>The circuit breaker\<close>

datatype CircuitState = CLOSED | OPEN | HALF_OPEN

text \<open>
  The thresholds are counts and the timeout a number of milliseconds, so they are natural
  numbers; \<open>resetTimeout\<close> is compared with a difference of clock readings. The optional
  fallback is taken to settle.
\<close>

record ('z, 'a) CircuitBreakerConfig =
  name :: string
  failureThreshold :: nat
  resetTimeout :: int
  successThreshold :: nat
  timeout :: nat
  fallback :: "('z, 'a) settled option"

record CircuitBreaker =
  state :: CircuitState
  failures :: nat
  successes :: nat
  lastFailureTime :: "int option"
  totalCalls :: nat
  totalFailures :: nat
  totalSuccesses :: nat

definition new_CircuitBreaker :: CircuitBreaker where
  "new_CircuitBreaker =
     \<lparr>state = CLOSED, failures = 0, successes = 0, lastFailureTime = None,
      totalCalls = 0, totalFailures = 0, totalSuccesses = 0\<rparr>"

text \<open>
  \<^verbatim>\<open>if (!this.lastFailureTime) return true\<close>: the test is JavaScript truthiness, so a
  recorded time of 0 counts like \<^verbatim>\<open>null\<close>.
\<close>

definition shouldAttemptReset ::
  "('z, 'a) CircuitBreakerConfig \<Rightarrow> CircuitBreaker \<Rightarrow> 'z world_scheme \<Rightarrow> bool" where
  "shouldAttemptReset cfg b w =
     (case lastFailureTime b of
        None \<Rightarrow> True
      | Some t \<Rightarrow> if t = 0 then True else Date_now w - t \<ge> resetTimeout cfg)"

definition open_circuit :: "CircuitBreaker \<Rightarrow> CircuitBreaker" where
  "open_circuit b = b\<lparr>state := OPEN, successes := 0\<rparr>"

definition close_circuit :: "CircuitBreaker \<Rightarrow> CircuitBreaker" where
  "close_circuit b = b\<lparr>state := CLOSED, failures := 0, successes := 0\<rparr>"

definition onSuccess :: "('z, 'a) CircuitBreakerConfig \<Rightarrow> CircuitBreaker \<Rightarrow> CircuitBreaker" where
  "onSuccess cfg b =
     (let b1 = b\<lparr>totalSuccesses := totalSuccesses b + 1\<rparr> in
      if state b1 = HALF_OPEN then
        (let b2 = b1\<lparr>successes := successes b1 + 1\<rparr> in
         if successes b2 \<ge> successThreshold cfg then close_circuit b2 else b2)
      else b1\<lparr>failures := 0\<rparr>)"

definition onFailure ::
  "('z, 'a) CircuitBreakerConfig \<Rightarrow> 'z world_scheme \<Rightarrow> CircuitBreaker \<Rightarrow> CircuitBreaker" where
  "onFailure cfg w b =
     (let b1 = b\<lparr>totalFailures := totalFailures b + 1,
                 failures := failures b + 1,
                 lastFailureTime := Some (Date_now w)\<rparr> in
      if state b1 = HALF_OPEN then open_circuit b1
      else if failures b1 \<ge> failureThreshold cfg then open_circuit b1
      else b1)"

text \<open>The error thrown by \<open>handleOpenCircuit\<close> and the one of the timer.\<close>

definition circuit_open_error :: "('z, 'a) CircuitBreakerConfig \<Rightarrow> error" where
  "circuit_open_error cfg =
     Error (''[CircuitBreaker:'' @ name cfg @ ''] Circuit is OPEN - service unavailable'')"

definition timeout_error :: "('z, 'a) CircuitBreakerConfig \<Rightarrow> error" where
  "timeout_error cfg = Error (''Circuit breaker timeout after '' @ show_nat (timeout cfg) @ ''ms'')"

definition handleOpenCircuit :: "('z, 'a) CircuitBreakerConfig \<Rightarrow> ('z, 'a) settled" where
  "handleOpenCircuit cfg w =
     (case fallback cfg of
        Some fb \<Rightarrow> fb w
      | None \<Rightarrow> (Inl (circuit_open_error cfg), w))"

text \<open>
  \<^verbatim>\<open>Promise.race\<close> of the operation with a timer: the operation is started in every case,
  and the timer wins exactly when the operation is still pending.
\<close>

definition executeWithTimeout ::
  "('z, 'a) CircuitBreakerConfig \<Rightarrow> ('z, 'a) operation \<Rightarrow> ('z, 'a) settled" where
  "executeWithTimeout cfg fn w =
     (case fn w of
        (Resolves v, w') \<Rightarrow> (Inr v, w')
      | (Rejects e, w') \<Rightarrow> (Inl e, w')
      | (Hangs, w') \<Rightarrow> (Inl (timeout_error cfg), w'))"

text \<open>
  \<open>execute\<close> in its two parts. \<open>execute_gate\<close> is the code before the operation is
  started: it counts the call and decides whether the operation runs (\<open>True\<close>) or the call
  is rejected. \<open>execute_run\<close> is the \<^verbatim>\<open>try\<close>/\<^verbatim>\<open>catch\<close> around the awaited operation.
\<close>

definition execute_gate ::
  "('z, 'a) CircuitBreakerConfig \<Rightarrow> CircuitBreaker \<Rightarrow> 'z world_scheme \<Rightarrow> bool \<times> CircuitBreaker" where
  "execute_gate cfg b w =
     (let b1 = b\<lparr>totalCalls := totalCalls b + 1\<rparr> in
      if state b1 = OPEN then
        (if shouldAttemptReset cfg b1 w then (True, b1\<lparr>state := HALF_OPEN\<rparr>)
         else (False, b1))
      else (True, b1))"

definition execute_run ::
  "('z, 'a) CircuitBreakerConfig \<Rightarrow> ('z, 'a) operation \<Rightarrow> CircuitBreaker \<Rightarrow> 'z world_scheme
     \<Rightarrow> (error + 'a) \<times> CircuitBreaker \<times> 'z world_scheme" where
  "execute_run cfg fn b w =
     (case executeWithTimeout cfg fn w of
        (Inr result, w') \<Rightarrow> (Inr result, onSuccess cfg b, w')
      | (Inl err, w') \<Rightarrow> (Inl err, onFailure cfg w' b, w'))"

definition execute ::
  "('z, 'a) CircuitBreakerConfig \<Rightarrow> ('z, 'a) operation \<Rightarrow> CircuitBreaker \<Rightarrow> 'z world_scheme
     \<Rightarrow> (error + 'a) \<times> CircuitBreaker \<times> 'z world_scheme" where
  "execute cfg fn b w =
     (case execute_gate cfg b w of
        (False, b1) \<Rightarrow> (case handleOpenCircuit cfg w of (r, w') \<Rightarrow> (r, b1, w'))
      | (True, b1) \<Rightarrow> execute_run cfg fn b1 w)"

definition reset :: "CircuitBreaker \<Rightarrow> CircuitBreaker" where
  "reset b = b\<lparr>state := CLOSED, failures := 0, successes := 0, lastFailureTime := None\<rparr>"

text \<open>
  A call is an operation together with the environment in which \<open>execute\<close> is entered;
  what happens to the environment between two calls is not constrained. A sequence of calls
  threads the breaker through them.
\<close>

type_synonym ('z, 'a) call = "('z, 'a) operation \<times> 'z world_scheme"

definition fails :: "('z, 'a) operation \<Rightarrow> 'z world_scheme \<Rightarrow> bool" where
  "fails fn w = (case fst (fn w) of Resolves v \<Rightarrow> False | Rejects e \<Rightarrow> True | Hangs \<Rightarrow> True)"

definition succeeds :: "('z, 'a) operation \<Rightarrow> 'z world_scheme \<Rightarrow> bool" where
  "succeeds fn w = (case fst (fn w) of Resolves v \<Rightarrow> True | Rejects e \<Rightarrow> False | Hangs \<Rightarrow> False)"

fun run_calls ::
  "('z, 'a) CircuitBreakerConfig \<Rightarrow> CircuitBreaker \<Rightarrow> ('z, 'a) call list \<Rightarrow> CircuitBreaker" where
  "run_calls cfg b [] = b"
| "run_calls cfg b ((fn, w) # cs) = run_calls cfg (fst (snd (execute cfg fn b w))) cs"

datatype ('z, 'a) command = Execute "('z, 'a) operation" "'z world_scheme" | Reset

fun run_command ::
  "('z, 'a) CircuitBreakerConfig \<Rightarrow> CircuitBreaker \<Rightarrow> ('z, 'a) command \<Rightarrow> CircuitBreaker" where
  "run_command cfg b (Execute fn w) = fst (snd (execute cfg fn b w))"
| "run_command cfg b Reset = reset b"

definition run_commands ::
  "('z, 'a) CircuitBreakerConfig \<Rightarrow> CircuitBreaker \<Rightarrow> ('z, 'a) command list \<Rightarrow> CircuitBreaker" where
  "run_commands cfg b cmds = foldl (run_command cfg) b cmds"

section \<open>The retry executor\<close>

text \<open>
  \<open>maxRetries\<close> is a count; the delays and the multiplier are numbers. The thrown value
  is of any type. The operation is taken to settle. \<^verbatim>\<open>sleep\<close> is a timer of the
  environment, so its effect on the environment is a parameter.
\<close>

record 'e RetryConfig =
  maxRetries :: nat
  initialDelay :: real
  maxDelay :: real
  backoffMultiplier :: real
  isRetryable :: "('e \<Rightarrow> bool) option"

definition DEFAULT_RETRY_CONFIG :: "'e RetryConfig" where
  "DEFAULT_RETRY_CONFIG =
     \<lparr>maxRetries = 3, initialDelay = 1000, maxDelay = 10000, backoffMultiplier = 2,
      isRetryable = None\<rparr>"

text \<open>
  What a run of \<open>withRetry\<close> gives: the value returned or the value thrown (\<open>None\<close> is
  \<^verbatim>\<open>undefined\<close>, the initial \<^verbatim>\<open>lastError\<close>), and, as a record of its effects, the number of
  times the operation was invoked and the durations slept, in order.
\<close>

record ('e, 'a, 'w) retry_run =
  outcome :: "'e option + 'a"
  invocations :: nat
  sleeps :: "real list"
  final :: 'w

function retry_loop ::
  "(real \<Rightarrow> 'w \<Rightarrow> 'w) \<Rightarrow> 'e RetryConfig \<Rightarrow> ('w \<Rightarrow> ('e + 'a) \<times> 'w) \<Rightarrow> nat \<Rightarrow> real
     \<Rightarrow> 'e option \<Rightarrow> nat \<Rightarrow> real list \<Rightarrow> 'w \<Rightarrow> ('e, 'a, 'w) retry_run" where
  "retry_loop sleep cfg fn attempt delay lastError n slept w =
     (if attempt \<le> maxRetries cfg then
        (case fn w of
           (Inr v, w') \<Rightarrow>
             \<lparr>outcome = Inr v, invocations = n + 1, sleeps = slept, final = w'\<rparr>
         | (Inl err, w') \<Rightarrow>
             if attempt \<ge> maxRetries cfg then
               \<lparr>outcome = Inl (Some err), invocations = n + 1, sleeps = slept, final = w'\<rparr>
             else if (case isRetryable cfg of None \<Rightarrow> False | Some p \<Rightarrow> \<not> p err) then
               \<lparr>outcome = Inl (Some err), invocations = n + 1, sleeps = slept, final = w'\<rparr>
             else
               retry_loop sleep cfg fn (attempt + 1)
                 (min (delay * backoffMultiplier cfg) (maxDelay cfg))
                 (Some err) (n + 1) (slept @ [delay]) (sleep delay w'))
      else \<lparr>outcome = Inl lastError, invocations = n, sleeps = slept, final = w\<rparr>)"
  by pat_completeness auto
termination
  by (relation "measure (\<lambda>(sleep, cfg, fn, attempt, rest). Suc (maxRetries cfg) - attempt)") auto

declare retry_loop.simps [simp del]

text \<open>Whether the policy lets a thrown value be retried.\<close>

definition retryable :: "'e RetryConfig \<Rightarrow> 'e \<Rightarrow> bool" where
  "retryable cfg err = (case isRetryable cfg of None \<Rightarrow> True | Some p \<Rightarrow> p err)"

definition withRetry ::
  "(real \<Rightarrow> 'w \<Rightarrow> 'w) \<Rightarrow> 'e RetryConfig \<Rightarrow> ('w \<Rightarrow> ('e + 'a) \<times> 'w) \<Rightarrow> 'w
     \<Rightarrow> ('e, 'a, 'w) retry_run" where
  "withRetry sleep cfg fn w = retry_loop sleep cfg fn 0 (initialDelay cfg) None 0 [] w"

text \<open>
  The sequence of delays as the specification words it: the first is \<open>initialDelay\<close>, each
  next one is the previous one times the multiplier, capped at \<open>maxDelay\<close>.
\<close>

fun spec_delay :: "'e RetryConfig \<Rightarrow> nat \<Rightarrow> real" where
  "spec_delay cfg 0 = initialDelay cfg"
| "spec_delay cfg (Suc i) = min (spec_delay cfg i * backoffMultiplier cfg) (maxDelay cfg)"


section \<open>The LiteLLM adapter: cache and provider chain\<close>

text \<open>
  Of the configuration, the fields that the cache and the provider chain read. The
  adapter's breaker is built by its constructor.
\<close>

record LiteLLMConfig =
  primaryModel :: string
  fallbackModels :: "string list"
  cacheEnabled :: bool
  cacheTTLSeconds :: real
  timeout_llm :: nat
  circuitBreakerEnabled :: bool

record CacheEntry =
  response :: string
  timestamp :: int

text \<open>
  A JavaScript \<^verbatim>\<open>Map\<close> keeps its keys in insertion order: setting a present key replaces
  its value in place, setting a new key appends it.
\<close>

fun Map_set :: "'k \<Rightarrow> 'v \<Rightarrow> ('k \<times> 'v) list \<Rightarrow> ('k \<times> 'v) list" where
  "Map_set k v [] = [(k, v)]"
| "Map_set k v ((k', v') # m) = (if k' = k then (k, v) # m else (k', v') # Map_set k v m)"

definition Map_delete :: "'k \<Rightarrow> ('k \<times> 'v) list \<Rightarrow> ('k \<times> 'v) list" where
  "Map_delete k m = filter (\<lambda>(k', v). k' \<noteq> k) m"

definition Map_get :: "'k \<Rightarrow> ('k \<times> 'v) list \<Rightarrow> 'v option" where
  "Map_get k m = map_of m k"

text \<open>
  The cache is mutated by the operation that \<open>chatSync\<close> hands to the breaker, so it is
  part of the environment that the operation transforms.
\<close>

record gateway_world = world +
  cache :: "(string \<times> CacheEntry) list"

type_synonym ('y, 'a) gateway_op =
  "'y gateway_world_scheme \<Rightarrow> (error + 'a) \<times> 'y gateway_world_scheme"

text \<open>
  Outside the model: \<^verbatim>\<open>JSON.stringify\<close> and the three HTTP calls, each taking the model
  name and the messages and settling with the reply text or an error.
\<close>

record ('y, 'm) externals =
  JSON_stringify :: "'m \<Rightarrow> string"
  callOllama :: "string \<Rightarrow> 'm \<Rightarrow> ('y, string) gateway_op"
  callOpenAI :: "string \<Rightarrow> 'm \<Rightarrow> ('y, string) gateway_op"
  callAnthropic :: "string \<Rightarrow> 'm \<Rightarrow> ('y, string) gateway_op"

definition adapter_breaker_config ::
  "LiteLLMConfig \<Rightarrow> ('y gateway_world_ext, string) CircuitBreakerConfig" where
  "adapter_breaker_config cfg =
     \<lparr>name = ''LiteLLM-AI'', failureThreshold = 3, resetTimeout = 60000,
      successThreshold = 2, timeout = timeout_llm cfg, fallback = None\<rparr>"

definition getCacheKey :: "('y, 'm) externals \<Rightarrow> 'm \<Rightarrow> string" where
  "getCacheKey ext messages = JSON_stringify ext messages"

definition getFromCache ::
  "LiteLLMConfig \<Rightarrow> string \<Rightarrow> 'y gateway_world_scheme \<Rightarrow> string option \<times> 'y gateway_world_scheme" where
  "getFromCache cfg key w =
     (if \<not> cacheEnabled cfg then (None, w)
      else case Map_get key (cache w) of
        None \<Rightarrow> (None, w)
      | Some entry \<Rightarrow>
          (let age = real_of_int (Date_now w - timestamp entry) / 1000 in
           if age > cacheTTLSeconds cfg then (None, w\<lparr>cache := Map_delete key (cache w)\<rparr>)
           else (Some (response entry), w)))"

text \<open>\<^verbatim>\<open>if (firstKey)\<close> is truthiness: the empty key is not deleted.\<close>

definition setCache :: "string \<Rightarrow> string \<Rightarrow> 'y gateway_world_scheme \<Rightarrow> 'y gateway_world_scheme" where
  "setCache key resp w =
     (let c = Map_set key \<lparr>response = resp, timestamp = Date_now w\<rparr> (cache w) in
      if length c > 1000 then
        (case c of
           [] \<Rightarrow> w\<lparr>cache := c\<rparr>
         | (firstKey, e) # rest \<Rightarrow>
             if firstKey \<noteq> [] then w\<lparr>cache := Map_delete firstKey c\<rparr> else w\<lparr>cache := c\<rparr>)
      else w\<lparr>cache := c\<rparr>)"

definition clearCache :: "'y gateway_world_scheme \<Rightarrow> 'y gateway_world_scheme" where
  "clearCache w = w\<lparr>cache := []\<rparr>"

text \<open>
  \<^verbatim>\<open>model.split('/')[0]\<close> is the text before the first slash;
  \<^verbatim>\<open>model.split('/').slice(1).join('/')\<close> is the text after it.
\<close>

definition provider_of :: "string \<Rightarrow> string" where
  "provider_of model = takeWhile (\<lambda>c. c \<noteq> CHR ''/'') model"

definition modelName_of :: "string \<Rightarrow> string" where
  "modelName_of model = drop 1 (dropWhile (\<lambda>c. c \<noteq> CHR ''/'') model)"

definition callModel :: "('y, 'm) externals \<Rightarrow> string \<Rightarrow> 'm \<Rightarrow> ('y, string) gateway_op" where
  "callModel ext model messages w =
     (let provider = provider_of model; modelName = modelName_of model in
      if provider = ''ollama'' then callOllama ext modelName messages w
      else if provider = ''openai'' then callOpenAI ext modelName messages w
      else if provider = ''anthropic'' then callAnthropic ext modelName messages w
      else (Inl (Error (''Unsupported provider: '' @ provider)), w))"

text \<open>
  The loop of \<open>executeWithFallbacks\<close> over the models still to try, with \<^verbatim>\<open>lastError\<close>
  (\<open>None\<close> is \<^verbatim>\<open>null\<close>). A thrown error is an object, hence truthy, so
  \<^verbatim>\<open>lastError || new Error('All models failed')\<close> is the generic error exactly when
  \<^verbatim>\<open>lastError\<close> is \<^verbatim>\<open>null\<close>.
\<close>

fun try_models ::
  "('y, 'm) externals \<Rightarrow> LiteLLMConfig \<Rightarrow> 'm \<Rightarrow> string \<Rightarrow> string list \<Rightarrow> error option
     \<Rightarrow> ('y, string) gateway_op" where
  "try_models ext cfg messages cacheKey [] lastError w =
     (case lastError of
        Some e \<Rightarrow> (Inl e, w)
      | None \<Rightarrow> (Inl (Error ''All models failed''), w))"
| "try_models ext cfg messages cacheKey (model # models) lastError w =
     (case callModel ext model messages w of
        (Inr resp, w') \<Rightarrow>
          (Inr resp, if cacheEnabled cfg then setCache cacheKey resp w' else w')
      | (Inl e, w') \<Rightarrow> try_models ext cfg messages cacheKey models (Some e) w')"

definition executeWithFallbacks ::
  "('y, 'm) externals \<Rightarrow> LiteLLMConfig \<Rightarrow> 'm \<Rightarrow> string \<Rightarrow> ('y, string) gateway_op" where
  "executeWithFallbacks ext cfg messages cacheKey w =
     try_models ext cfg messages cacheKey (primaryModel cfg # fallbackModels cfg) None w"

text \<open>
  The operation handed to the breaker, raced against the breaker's timer. The timer is
  due \<open>timeout\<close> milliseconds after the call is entered, and the adapter gives the breaker
  the same \<open>timeout\<close> as every provider call's abort signal. The chain wins the race when it
  has settled by the time the timer is due (a provider's abort timer is set before the
  breaker's, so a chain that ends on that very abort still wins). Otherwise the timer wins:
  the breaker sees a pending operation at the clock reading of the timer. The abandoned
  chain runs on, so the environment is the one it leaves, read at that clock.
\<close>

definition settles_in_time ::
  "('y, 'm) externals \<Rightarrow> LiteLLMConfig \<Rightarrow> 'm \<Rightarrow> string \<Rightarrow> 'y gateway_world_scheme \<Rightarrow> bool" where
  "settles_in_time ext cfg messages cacheKey w \<longleftrightarrow>
     Date_now (snd (executeWithFallbacks ext cfg messages cacheKey w)) - Date_now w
       \<le> int (timeout_llm cfg)"

definition guarded_chain ::
  "('y, 'm) externals \<Rightarrow> LiteLLMConfig \<Rightarrow> 'm \<Rightarrow> string
     \<Rightarrow> ('y gateway_world_ext, string) operation" where
  "guarded_chain ext cfg messages cacheKey w =
     (if settles_in_time ext cfg messages cacheKey w then
        (case executeWithFallbacks ext cfg messages cacheKey w of
           (Inr resp, w') \<Rightarrow> (Resolves resp, w')
         | (Inl e, w') \<Rightarrow> (Rejects e, w'))
      else
        (Hangs, (snd (executeWithFallbacks ext cfg messages cacheKey w))
                  \<lparr>Date_now := Date_now w + int (timeout_llm cfg)\<rparr>))"

text \<open>\<^verbatim>\<open>if (cached)\<close> is truthiness: \<^verbatim>\<open>null\<close> and the empty string both fail it.\<close>

definition chatSync ::
  "('y, 'm) externals \<Rightarrow> LiteLLMConfig \<Rightarrow> 'm \<Rightarrow> CircuitBreaker \<Rightarrow> 'y gateway_world_scheme
     \<Rightarrow> (error + string) \<times> CircuitBreaker \<times> 'y gateway_world_scheme" where
  "chatSync ext cfg messages b w =
     (let cacheKey = getCacheKey ext messages in
      case getFromCache cfg cacheKey w of
        (cached, w1) \<Rightarrow>
          if cached \<noteq> None \<and> cached \<noteq> Some [] then (Inr (the cached), b, w1)
          else if circuitBreakerEnabled cfg then
            execute (adapter_breaker_config cfg) (guarded_chain ext cfg messages cacheKey) b w1
          else
            (case executeWithFallbacks ext cfg messages cacheKey w1 of
               (r, w2) \<Rightarrow> (r, b, w2)))"


section \<open>Invariants and test doubles\<close>

text \<open>
  Every failure and every success belongs to a counted call.
\<close>

definition accounted :: "CircuitBreaker \<Rightarrow> bool" where
  "accounted b \<longleftrightarrow> totalFailures b + totalSuccesses b \<le> totalCalls b"


text \<open>The same for \<open>j\<close> successful calls in a row on a breaker that started HALF_OPEN.\<close>

definition closing :: "('z, 'a) CircuitBreakerConfig \<Rightarrow> nat \<Rightarrow> CircuitBreaker \<Rightarrow> bool" where
  "closing cfg j b \<longleftrightarrow>
     (state b = CLOSED \<and> failures b = 0 \<and> successes b = 0) \<or>
     (state b = HALF_OPEN \<and> j \<le> successes b \<and> (0 < j \<longrightarrow> successes b < successThreshold cfg))"

text \<open>
  The doubles of \<^verbatim>\<open>circuit-breaker.test.ts\<close>: an environment that counts the invocations
  of a mocked operation, the two mocks, and the two configurations of the tests.
\<close>

record mock = world +
  calls :: nat

definition mockRejectedValue :: "string \<Rightarrow> (\<lparr>calls :: nat\<rparr>, string) operation" where
  "mockRejectedValue msg w = (Rejects (Error msg), w\<lparr>calls := calls w + 1\<rparr>)"

definition mockResolvedValue :: "string \<Rightarrow> (\<lparr>calls :: nat\<rparr>, string) operation" where
  "mockResolvedValue v w = (Resolves v, w\<lparr>calls := calls w + 1\<rparr>)"

definition test_config :: "(\<lparr>calls :: nat\<rparr>, string) CircuitBreakerConfig" where
  "test_config =
     \<lparr>name = ''test'', failureThreshold = 3, resetTimeout = 1000,
      successThreshold = 2, timeout = 5000, fallback = None\<rparr>"

definition test_fallback_config :: "(\<lparr>calls :: nat\<rparr>, string) CircuitBreakerConfig" where
  "test_fallback_config =
     \<lparr>name = ''test-fallback'', failureThreshold = 1, resetTimeout = 10000,
      successThreshold = 1, timeout = 5000,
      fallback = Some (\<lambda>w. (Inr ''fallback result'', w))\<rparr>"

definition three_failures :: "(\<lparr>calls :: nat\<rparr>, string) call list" where
  "three_failures =
     [(mockRejectedValue ''fail'', \<lparr>Date_now = 100, calls = 0\<rparr>),
      (mockRejectedValue ''fail'', \<lparr>Date_now = 200, calls = 1\<rparr>),
      (mockRejectedValue ''fail'', \<lparr>Date_now = 300, calls = 2\<rparr>)]"

definition two_successes :: "(\<lparr>calls :: nat\<rparr>, string) call list" where
  "two_successes =
     [(mockResolvedValue ''success'', \<lparr>Date_now = 1300, calls = 3\<rparr>),
      (mockResolvedValue ''success'', \<lparr>Date_now = 1400, calls = 4\<rparr>)]"

text \<open>The breaker of the tests after three failures, and while it probes.\<close>

definition tripped :: CircuitBreaker where
  "tripped =
     \<lparr>state = OPEN, failures = 3, successes = 0, lastFailureTime = Some 300,
      totalCalls = 3, totalFailures = 3, totalSuccesses = 0\<rparr>"

definition probing :: CircuitBreaker where
  "probing =
     \<lparr>state = HALF_OPEN, failures = 3, successes = 0, lastFailureTime = Some 300,
      totalCalls = 4, totalFailures = 3, totalSuccesses = 0\<rparr>"

text \<open>
  For the retry executor: the environment is the number of invocations so far, sleeping
  leaves it alone, and the mocked operation always throws.
\<close>

definition no_sleep :: "real \<Rightarrow> nat \<Rightarrow> nat" where
  "no_sleep ms w = w"

definition always_failing :: "nat \<Rightarrow> (string + string) \<times> nat" where
  "always_failing w = (Inl (''fail '' @ show_nat (w + 1)), w + 1)"


definition late_start_config :: "string RetryConfig" where
  "late_start_config = DEFAULT_RETRY_CONFIG\<lparr>initialDelay := 20000\<rparr>"

definition negative_start_config :: "string RetryConfig" where
  "negative_start_config = DEFAULT_RETRY_CONFIG\<lparr>initialDelay := - 1000\<rparr>"

text \<open>
  For the adapter: an environment that counts the HTTP calls, a serialiser of messages
  given as pairs of role and content, and providers of which Ollama answers with a fixed
  text and the cloud providers have no API key.
\<close>

record mock_gateway = gateway_world +
  fetchCalls :: nat

definition mock_stringify :: "(string \<times> string) list \<Rightarrow> string" where
  "mock_stringify messages = concat (map (\<lambda>(r, c). r @ '':'' @ c @ '';'') messages)"

definition mock_externals ::
  "string \<Rightarrow> (\<lparr>fetchCalls :: nat\<rparr>, (string \<times> string) list) externals" where
  "mock_externals reply =
     \<lparr>JSON_stringify = mock_stringify,
      callOllama = (\<lambda>model messages w. (Inr reply, w\<lparr>fetchCalls := fetchCalls w + 1\<rparr>)),
      callOpenAI = (\<lambda>model messages w. (Inl (Error ''OPENAI_API_KEY not configured''), w)),
      callAnthropic = (\<lambda>model messages w. (Inl (Error ''ANTHROPIC_API_KEY not configured''), w))\<rparr>"




definition test_adapter_config :: LiteLLMConfig where
  "test_adapter_config =
     \<lparr>primaryModel = ''ollama/llama3.2'', fallbackModels = [''openai/gpt-4o-mini''],
      cacheEnabled = True, cacheTTLSeconds = 300, timeout_llm = 30000,
      circuitBreakerEnabled = True\<rparr>"

definition test_messages :: "(string \<times> string) list" where
  "test_messages = [(''user'', ''Test'')]"

definition empty_gateway :: "int \<Rightarrow> mock_gateway" where
  "empty_gateway now = \<lparr>Date_now = now, cache = [], fetchCalls = 0\<rparr>"

section \<open>The circuit breaker: what one call does\<close>

lemma fails_settled:
  "fails fn w \<Longrightarrow> \<exists>e. executeWithTimeout cfg fn w = (Inl e, snd (fn w))"
  by (cases "fn w"; cases "fst (fn w)") (auto simp: fails_def executeWithTimeout_def)

lemma succeeds_settled:
  "succeeds fn w \<Longrightarrow> \<exists>v. executeWithTimeout cfg fn w = (Inr v, snd (fn w))"
  by (cases "fn w"; cases "fst (fn w)") (auto simp: succeeds_def executeWithTimeout_def)

lemma executeWithTimeout_world: "snd (executeWithTimeout cfg fn w) = snd (fn w)"
  by (cases "fn w"; cases "fst (fn w)") (auto simp: executeWithTimeout_def)

lemma execute_rejected:
  assumes "state b = OPEN" "\<not> shouldAttemptReset cfg b w"
  shows "execute cfg fn b w =
     (fst (handleOpenCircuit cfg w), b\<lparr>totalCalls := totalCalls b + 1\<rparr>,
      snd (handleOpenCircuit cfg w))"
  using assms
  by (simp add: execute_def execute_gate_def shouldAttemptReset_def Let_def split: prod.splits)

lemma execute_probe:
  assumes "state b = OPEN" "shouldAttemptReset cfg b w"
  shows "execute_gate cfg b w = (True, b\<lparr>totalCalls := totalCalls b + 1, state := HALF_OPEN\<rparr>)"
    and "execute cfg fn b w =
       execute_run cfg fn (b\<lparr>totalCalls := totalCalls b + 1, state := HALF_OPEN\<rparr>) w"
  using assms
  by (simp_all add: execute_def execute_gate_def shouldAttemptReset_def Let_def)

lemma execute_passes:
  assumes "state b \<noteq> OPEN"
  shows "execute cfg fn b w = execute_run cfg fn (b\<lparr>totalCalls := totalCalls b + 1\<rparr>) w"
  using assms by (simp add: execute_def execute_gate_def Let_def)

lemma execute_run_world: "snd (snd (execute_run cfg fn b w)) = snd (fn w)"
  using executeWithTimeout_world[of cfg fn w]
  by (cases "executeWithTimeout cfg fn w"; cases "fst (executeWithTimeout cfg fn w)")
     (auto simp: execute_run_def)

lemma shouldAttemptReset_Some:
  "lastFailureTime b = Some t \<Longrightarrow> t \<noteq> 0 \<Longrightarrow>
     shouldAttemptReset cfg b w \<longleftrightarrow> resetTimeout cfg \<le> Date_now w - t"
  by (simp add: shouldAttemptReset_def)

subsection \<open>An OPEN breaker\<close>

text \<open>
  Claim C4. A breaker in state OPEN holds the time of the last failure. A call entered before
  \<open>resetTimeout\<close> has passed since that time does not start the operation: without a
  fallback it throws the circuit-open error and the environment is untouched, with a
  fallback it gives what the fallback gives; the breaker only counts the call. A call entered
  once \<open>resetTimeout\<close> has passed puts the breaker in HALF_OPEN before the operation runs,
  and the operation runs. The time of the last failure is a reading of \<^verbatim>\<open>Date.now()\<close>,
  which is not 0; \<open>shouldAttemptReset\<close> takes a recorded 0 for no record at all.
\<close>

theorem open_breaker_rejects_until_reset_timeout:
  assumes "state b = OPEN" and "lastFailureTime b = Some t" and "t \<noteq> 0"
  shows "(Date_now w - t < resetTimeout cfg \<longrightarrow>
            (fallback cfg = None \<longrightarrow>
               execute cfg fn b w =
                 (Inl (circuit_open_error cfg),
                  b\<lparr>totalCalls := totalCalls b + 1\<rparr>, w)) \<and>
            (\<forall>fb. fallback cfg = Some fb \<longrightarrow>
               execute cfg fn b w = (fst (fb w), b\<lparr>totalCalls := totalCalls b + 1\<rparr>, snd (fb w)))) \<and>
         (resetTimeout cfg \<le> Date_now w - t \<longrightarrow>
            execute_gate cfg b w = (True, b\<lparr>totalCalls := totalCalls b + 1, state := HALF_OPEN\<rparr>) \<and>
            execute cfg fn b w =
              execute_run cfg fn (b\<lparr>totalCalls := totalCalls b + 1, state := HALF_OPEN\<rparr>) w \<and>
            snd (snd (execute cfg fn b w)) = snd (fn w))"
proof (intro conjI impI allI)
  assume early: "Date_now w - t < resetTimeout cfg"
  then have no: "\<not> shouldAttemptReset cfg b w"
    using shouldAttemptReset_Some[OF assms(2,3), of cfg w] by simp
  { assume "fallback cfg = None"
    then show "execute cfg fn b w =
        (Inl (circuit_open_error cfg),
         b\<lparr>totalCalls := totalCalls b + 1\<rparr>, w)"
      by (simp add: execute_rejected[OF assms(1) no] handleOpenCircuit_def circuit_open_error_def) }
  { fix fb assume "fallback cfg = Some fb"
    then show "execute cfg fn b w = (fst (fb w), b\<lparr>totalCalls := totalCalls b + 1\<rparr>, snd (fb w))"
      by (simp add: execute_rejected[OF assms(1) no] handleOpenCircuit_def) }
next
  assume late: "resetTimeout cfg \<le> Date_now w - t"
  then have yes: "shouldAttemptReset cfg b w"
    using shouldAttemptReset_Some[OF assms(2,3), of cfg w] by simp
  show "execute_gate cfg b w = (True, b\<lparr>totalCalls := totalCalls b + 1, state := HALF_OPEN\<rparr>)"
    by (rule execute_probe(1)[OF assms(1) yes])
  show "execute cfg fn b w =
      execute_run cfg fn (b\<lparr>totalCalls := totalCalls b + 1, state := HALF_OPEN\<rparr>) w"
    by (rule execute_probe(2)[OF assms(1) yes])
  then show "snd (snd (execute cfg fn b w)) = snd (fn w)"
    by (simp add: execute_run_world)
qed

subsection \<open>Failures and successes in a row\<close>



lemma execute_failing_half_open:
  assumes "state b = HALF_OPEN" "fails fn w"
  shows "fst (snd (execute cfg fn b w)) =
     b\<lparr>totalCalls := totalCalls b + 1, totalFailures := totalFailures b + 1,
       failures := failures b + 1, lastFailureTime := Some (Date_now (snd (fn w))),
       state := OPEN, successes := 0\<rparr>"
  using fails_settled[OF assms(2), of cfg] assms(1)
  by (auto simp: execute_def execute_gate_def execute_run_def onFailure_def open_circuit_def Let_def)

lemma execute_succeeding_half_open:
  assumes "state b = HALF_OPEN" "succeeds fn w"
  shows "fst (snd (execute cfg fn b w)) =
     (if successes b + 1 \<ge> successThreshold cfg
      then b\<lparr>totalCalls := totalCalls b + 1, totalSuccesses := totalSuccesses b + 1,
             successes := 0, state := CLOSED, failures := 0\<rparr>
      else b\<lparr>totalCalls := totalCalls b + 1, totalSuccesses := totalSuccesses b + 1,
             successes := successes b + 1\<rparr>)"
  using succeeds_settled[OF assms(2), of cfg] assms(1)
  by (auto simp: execute_def execute_gate_def execute_run_def onSuccess_def close_circuit_def Let_def)

lemma execute_succeeding_closed:
  assumes "state b = CLOSED" "succeeds fn w"
  shows "fst (snd (execute cfg fn b w)) =
     b\<lparr>totalCalls := totalCalls b + 1, totalSuccesses := totalSuccesses b + 1, failures := 0\<rparr>"
  using succeeds_settled[OF assms(2), of cfg] assms(1)
  by (auto simp: execute_def execute_gate_def execute_run_def onSuccess_def Let_def)



lemma closing_step:
  assumes "closing cfg j b" "succeeds fn w"
  shows "closing cfg (Suc j) (fst (snd (execute cfg fn b w)))"
proof (cases "state b = CLOSED")
  case True
  with assms(1) have "failures b = 0 \<and> successes b = 0" by (auto simp: closing_def)
  then show ?thesis using True
    by (simp add: execute_succeeding_closed[OF True assms(2)] closing_def)
next
  case False
  with assms(1) have h: "state b = HALF_OPEN" and j: "j \<le> successes b"
    by (auto simp: closing_def)
  show ?thesis using j h
    by (simp add: execute_succeeding_half_open[OF h assms(2)] closing_def)
qed

lemma closing_run:
  "closing cfg j b \<Longrightarrow> \<forall>(fn, w) \<in> set cs. succeeds fn w
     \<Longrightarrow> closing cfg (j + length cs) (run_calls cfg b cs)"
proof (induction cs arbitrary: b j)
  case Nil
  then show ?case by simp
next
  case (Cons c cs)
  obtain fn w where c: "c = (fn, w)" by (cases c)
  from Cons.prems(2) c have f: "succeeds fn w" by simp
  have "closing cfg (Suc j + length cs) (run_calls cfg (fst (snd (execute cfg fn b w))) cs)"
    using Cons.prems(2) by (intro Cons.IH closing_step[OF Cons.prems(1) f]) simp
  then show ?case by (simp add: c)
qed



lemma below_threshold_stays_half_open:
  "state b = HALF_OPEN \<Longrightarrow> successes b + length cs < successThreshold cfg
     \<Longrightarrow> \<forall>(fn, w) \<in> set cs. succeeds fn w
     \<Longrightarrow> state (run_calls cfg b cs) = HALF_OPEN \<and>
         successes (run_calls cfg b cs) = successes b + length cs \<and>
         failures (run_calls cfg b cs) = failures b \<and>
         lastFailureTime (run_calls cfg b cs) = lastFailureTime b"
proof (induction cs arbitrary: b)
  case Nil
  then show ?case by simp
next
  case (Cons c cs)
  obtain fn w where c: "c = (fn, w)" by (cases c)
  from Cons.prems(3) c have s: "succeeds fn w" by simp
  define b' where "b' = fst (snd (execute cfg fn b w))"
  have e: "b' = b\<lparr>totalCalls := totalCalls b + 1, totalSuccesses := totalSuccesses b + 1,
             successes := successes b + 1\<rparr>"
    using Cons.prems(2) by (simp add: b'_def execute_succeeding_half_open[OF Cons.prems(1) s])
  have h: "state b' = HALF_OPEN" "successes b' + length cs < successThreshold cfg"
    using e Cons.prems(1,2) by simp_all
  have r: "\<forall>(fn, w) \<in> set cs. succeeds fn w" using Cons.prems(3) by simp
  from Cons.IH[OF h r] e show ?case by (simp add: c b'_def[symmetric])
qed

text \<open>
  Claim C5. In state HALF_OPEN one failed call, whatever the count of successes, opens the
  breaker and records the time at which the operation failed. Calls whose operation
  succeeds leave the breaker HALF_OPEN, each adding one to the count of successes, as long
  as that count stays below \<open>successThreshold\<close>; \<open>successThreshold\<close> of them, at least one,
  leave the breaker CLOSED with both consecutive counters at 0.
\<close>

theorem half_open_fails_open_succeeds_close:
  assumes "state b = HALF_OPEN"
  shows "(fails fn w \<longrightarrow>
            state (fst (snd (execute cfg fn b w))) = OPEN \<and>
            lastFailureTime (fst (snd (execute cfg fn b w))) = Some (Date_now (snd (fn w))) \<and>
            snd (snd (execute cfg fn b w)) = snd (fn w)) \<and>
         (0 < successThreshold cfg \<and> length cs = successThreshold cfg \<and>
          (\<forall>(fn, w) \<in> set cs. succeeds fn w) \<longrightarrow>
            state (run_calls cfg b cs) = CLOSED \<and>
            failures (run_calls cfg b cs) = 0 \<and> successes (run_calls cfg b cs) = 0) \<and>
         (successes b + length cs' < successThreshold cfg \<and>
          (\<forall>(fn, w) \<in> set cs'. succeeds fn w) \<longrightarrow>
            state (run_calls cfg b cs') = HALF_OPEN \<and>
            successes (run_calls cfg b cs') = successes b + length cs' \<and>
            failures (run_calls cfg b cs') = failures b)"
proof (intro conjI impI)
  assume f: "fails fn w"
  show "state (fst (snd (execute cfg fn b w))) = OPEN"
    by (simp add: execute_failing_half_open[OF assms f])
  show "lastFailureTime (fst (snd (execute cfg fn b w))) = Some (Date_now (snd (fn w)))"
    by (simp add: execute_failing_half_open[OF assms f])
  show "snd (snd (execute cfg fn b w)) = snd (fn w)"
    using assms by (simp add: execute_passes execute_run_world)
next
  assume h: "0 < successThreshold cfg \<and> length cs = successThreshold cfg \<and>
          (\<forall>(fn, w) \<in> set cs. succeeds fn w)"
  have "closing cfg 0 b" using assms by (simp add: closing_def)
  from closing_run[OF this, of cs] h
  have c: "closing cfg (successThreshold cfg) (run_calls cfg b cs)" by auto
  with h show "state (run_calls cfg b cs) = CLOSED" by (auto simp: closing_def)
  from c h show "failures (run_calls cfg b cs) = 0" by (auto simp: closing_def)
  from c h show "successes (run_calls cfg b cs) = 0" by (auto simp: closing_def)
next
  assume h: "successes b + length cs' < successThreshold cfg \<and>
          (\<forall>(fn, w) \<in> set cs'. succeeds fn w)"
  then have l: "successes b + length cs' < successThreshold cfg"
    and s: "\<forall>(fn, w) \<in> set cs'. succeeds fn w" by simp_all
  note r = below_threshold_stays_half_open[OF assms l s]
  from r show "state (run_calls cfg b cs') = HALF_OPEN" by simp
  from r show "successes (run_calls cfg b cs') = successes b + length cs'" by simp
  from r show "failures (run_calls cfg b cs') = failures b" by simp
qed

subsection \<open>What a transition does to the consecutive counters\<close>

text \<open>
  Claim C8, as the code has it. The transition to CLOSED resets both consecutive counters.
  A transition to OPEN, from CLOSED or from HALF_OPEN, resets the count of successes and
  leaves the count of failures at its value, the failure just seen included. The transition
  from OPEN to HALF_OPEN changes neither counter.
\<close>

theorem transitions_reset_what_the_code_resets:
  "(state b = HALF_OPEN \<and> state (onSuccess cfg b) = CLOSED \<longrightarrow>
      failures (onSuccess cfg b) = 0 \<and> successes (onSuccess cfg b) = 0) \<and>
   (state b \<noteq> OPEN \<and> state (onFailure cfg w b) = OPEN \<longrightarrow>
      successes (onFailure cfg w b) = 0 \<and> failures (onFailure cfg w b) = failures b + 1) \<and>
   (state b = OPEN \<and> state (snd (execute_gate cfg b w)) = HALF_OPEN \<longrightarrow>
      failures (snd (execute_gate cfg b w)) = failures b \<and>
      successes (snd (execute_gate cfg b w)) = successes b)"
  by (auto simp: onSuccess_def onFailure_def execute_gate_def open_circuit_def close_circuit_def
      Let_def split: if_splits)

subsection \<open>Lifetime counters\<close>

lemma execute_totals_mono:
  "totalCalls b \<le> totalCalls (fst (snd (execute cfg fn b w))) \<and>
   totalFailures b \<le> totalFailures (fst (snd (execute cfg fn b w))) \<and>
   totalSuccesses b \<le> totalSuccesses (fst (snd (execute cfg fn b w)))"
  by (auto simp: execute_def execute_gate_def execute_run_def onSuccess_def onFailure_def
      open_circuit_def close_circuit_def Let_def split: prod.splits sum.splits if_splits)

lemma run_command_totals_mono:
  "totalCalls b \<le> totalCalls (run_command cfg b c) \<and>
   totalFailures b \<le> totalFailures (run_command cfg b c) \<and>
   totalSuccesses b \<le> totalSuccesses (run_command cfg b c)"
  using execute_totals_mono by (cases c) (auto simp: reset_def)

lemma run_commands_totals_mono:
  "totalCalls b \<le> totalCalls (run_commands cfg b cmds) \<and>
   totalFailures b \<le> totalFailures (run_commands cfg b cmds) \<and>
   totalSuccesses b \<le> totalSuccesses (run_commands cfg b cmds)"
  unfolding run_commands_def
proof (induction cmds arbitrary: b)
  case Nil
  show ?case by simp
next
  case (Cons c cmds)
  show ?case
    using Cons.IH[of "run_command cfg b c"] run_command_totals_mono[of b cfg c]
    by (auto intro: order_trans)
qed

text \<open>
  Claim C9. Over any sequence of calls and manual resets the three lifetime counters never
  decrease. A manual reset puts the breaker in CLOSED, zeroes the two consecutive counters
  and forgets the time of the last failure; it leaves the lifetime counters as they are.
\<close>

theorem lifetime_counters_monotone_reset_clears:
  "totalCalls b \<le> totalCalls (run_commands cfg b cmds) \<and>
   totalFailures b \<le> totalFailures (run_commands cfg b cmds) \<and>
   totalSuccesses b \<le> totalSuccesses (run_commands cfg b cmds) \<and>
   reset b = \<lparr>state = CLOSED, failures = 0, successes = 0, lastFailureTime = None,
              totalCalls = totalCalls b, totalFailures = totalFailures b,
              totalSuccesses = totalSuccesses b\<rparr>"
  using run_commands_totals_mono[of b cfg cmds] by (simp add: reset_def)

lemma execute_accounted:
  "accounted b \<Longrightarrow> accounted (fst (snd (execute cfg fn b w)))"
  by (auto simp: accounted_def execute_def execute_gate_def execute_run_def onSuccess_def
      onFailure_def open_circuit_def close_circuit_def Let_def
      split: prod.splits sum.splits if_splits)

lemma run_command_accounted: "accounted b \<Longrightarrow> accounted (run_command cfg b c)"
  using execute_accounted by (cases c) (auto simp: reset_def accounted_def)

lemma run_commands_accounted: "accounted b \<Longrightarrow> accounted (run_commands cfg b cmds)"
  unfolding run_commands_def
  by (induction cmds arbitrary: b) (auto simp: run_command_accounted)

text \<open>
  Claim C10. A call rejected while the breaker is OPEN, whether it throws or is served by
  the fallback, adds one to \<open>totalCalls\<close> and changes no other field of the breaker. So
  failures and successes together never exceed the calls: every call and every reset keeps
  that, and it holds of a new breaker after any sequence of them.
\<close>

theorem rejected_call_only_counts_the_call:
  "(state b = OPEN \<and> \<not> shouldAttemptReset cfg b w \<longrightarrow>
      execute cfg fn b w =
        (fst (handleOpenCircuit cfg w), b\<lparr>totalCalls := totalCalls b + 1\<rparr>,
         snd (handleOpenCircuit cfg w))) \<and>
   (accounted b \<longrightarrow> accounted (run_command cfg b c)) \<and>
   accounted (run_commands cfg new_CircuitBreaker cmds)"
proof (intro conjI impI)
  assume "state b = OPEN \<and> \<not> shouldAttemptReset cfg b w"
  then show "execute cfg fn b w =
        (fst (handleOpenCircuit cfg w), b\<lparr>totalCalls := totalCalls b + 1\<rparr>,
         snd (handleOpenCircuit cfg w))"
    using execute_rejected by blast
next
  assume "accounted b" then show "accounted (run_command cfg b c)"
    by (rule run_command_accounted)
next
  have "accounted new_CircuitBreaker" by (simp add: accounted_def new_CircuitBreaker_def)
  then show "accounted (run_commands cfg new_CircuitBreaker cmds)"
    by (rule run_commands_accounted)
qed

subsection \<open>The runs of the tests\<close>

lemmas breaker_eval =
  execute_def execute_gate_def execute_run_def executeWithTimeout_def onFailure_def onSuccess_def
  open_circuit_def close_circuit_def shouldAttemptReset_def handleOpenCircuit_def
  circuit_open_error_def Let_def



theorem open_breaker_rejects_witness:
  "execute test_config (mockResolvedValue ''success'') tripped \<lparr>Date_now = 400, calls = 3\<rparr> =
     (Inl (Error ''[CircuitBreaker:test] Circuit is OPEN - service unavailable''),
      tripped\<lparr>totalCalls := 4\<rparr>, \<lparr>Date_now = 400, calls = 3\<rparr>) \<and>
   execute test_fallback_config (mockResolvedValue ''success'') tripped \<lparr>Date_now = 400, calls = 3\<rparr> =
     (Inr ''fallback result'', tripped\<lparr>totalCalls := 4\<rparr>, \<lparr>Date_now = 400, calls = 3\<rparr>) \<and>
   execute_gate test_config tripped \<lparr>Date_now = 1300, calls = 3\<rparr> = (True, probing) \<and>
   snd (snd (execute test_config (mockResolvedValue ''success'') tripped
               \<lparr>Date_now = 1300, calls = 3\<rparr>)) = \<lparr>Date_now = 1300, calls = 4\<rparr>"
proof -
  have h1: "state tripped = OPEN" and h2: "lastFailureTime tripped = Some 300"
    and h3: "(300::int) \<noteq> 0"
    by (simp_all add: tripped_def)
  have e1: "Date_now \<lparr>Date_now = 400, calls = 3\<rparr> - 300 < resetTimeout test_config"
    and e2: "Date_now \<lparr>Date_now = 400, calls = 3\<rparr> - 300 < resetTimeout test_fallback_config"
    and e3: "resetTimeout test_config \<le> Date_now \<lparr>Date_now = 1300, calls = 3\<rparr> - 300"
    by (simp_all add: test_config_def test_fallback_config_def)
  have f1: "fallback test_config = None"
    and f2: "fallback test_fallback_config = Some (\<lambda>w. (Inr ''fallback result'', w))"
    by (simp_all add: test_config_def test_fallback_config_def)
  have g1: "circuit_open_error test_config =
      Error ''[CircuitBreaker:test] Circuit is OPEN - service unavailable''"
    and g2: "tripped\<lparr>totalCalls := totalCalls tripped + 1\<rparr> = tripped\<lparr>totalCalls := 4\<rparr>"
    and g3: "tripped\<lparr>totalCalls := totalCalls tripped + 1, state := HALF_OPEN\<rparr> = probing"
    and g4: "snd (mockResolvedValue ''success'' \<lparr>Date_now = 1300, calls = 3\<rparr>) =
       \<lparr>Date_now = 1300, calls = 4\<rparr>"
    by (simp_all add: circuit_open_error_def test_config_def tripped_def probing_def
        mockResolvedValue_def)
  have r1: "execute test_config (mockResolvedValue ''success'') tripped \<lparr>Date_now = 400, calls = 3\<rparr> =
      (Inl (circuit_open_error test_config), tripped\<lparr>totalCalls := totalCalls tripped + 1\<rparr>,
       \<lparr>Date_now = 400, calls = 3\<rparr>)"
    by (rule open_breaker_rejects_until_reset_timeout[OF h1 h2 h3,
      of "\<lparr>Date_now = 400, calls = 3\<rparr>" test_config "mockResolvedValue ''success''",
      THEN conjunct1, THEN mp, OF e1, THEN conjunct1, THEN mp, OF f1])
  have r2: "execute test_fallback_config (mockResolvedValue ''success'') tripped
       \<lparr>Date_now = 400, calls = 3\<rparr> =
      (fst ((\<lambda>w. (Inr ''fallback result'', w)) \<lparr>Date_now = 400, calls = 3\<rparr>),
       tripped\<lparr>totalCalls := totalCalls tripped + 1\<rparr>,
       snd ((\<lambda>w. (Inr ''fallback result'', w)) \<lparr>Date_now = 400, calls = 3\<rparr>))"
    using f2 open_breaker_rejects_until_reset_timeout[OF h1 h2 h3,
      of "\<lparr>Date_now = 400, calls = 3\<rparr>" test_fallback_config "mockResolvedValue ''success''",
      THEN conjunct1, THEN mp, OF e2, THEN conjunct2]
    by simp
  note t3 = open_breaker_rejects_until_reset_timeout[OF h1 h2 h3,
      of "\<lparr>Date_now = 1300, calls = 3\<rparr>" test_config "mockResolvedValue ''success''",
      THEN conjunct2, THEN mp, OF e3]
  have r3: "execute_gate test_config tripped \<lparr>Date_now = 1300, calls = 3\<rparr> =
        (True, tripped\<lparr>totalCalls := totalCalls tripped + 1, state := HALF_OPEN\<rparr>)"
    by (rule t3[THEN conjunct1])
  have r4: "snd (snd (execute test_config (mockResolvedValue ''success'') tripped
                  \<lparr>Date_now = 1300, calls = 3\<rparr>)) =
        snd (mockResolvedValue ''success'' \<lparr>Date_now = 1300, calls = 3\<rparr>)"
    by (rule t3[THEN conjunct2, THEN conjunct2])
  show ?thesis using r1 r2 r3 r4 unfolding g1 g4 by (simp add: tripped_def probing_def)
qed

lemma two_successes_run:
  "run_calls test_config probing two_successes =
     \<lparr>state = CLOSED, failures = 0, successes = 0, lastFailureTime = Some 300,
      totalCalls = 6, totalFailures = 3, totalSuccesses = 2\<rparr>"
  by (simp add: two_successes_def test_config_def probing_def mockResolvedValue_def breaker_eval)

theorem half_open_witness:
  "state (fst (snd (execute test_config (mockRejectedValue ''fail'') (probing\<lparr>successes := 1\<rparr>)
                      \<lparr>Date_now = 1300, calls = 3\<rparr>))) = OPEN \<and>
   lastFailureTime (fst (snd (execute test_config (mockRejectedValue ''fail'')
                      (probing\<lparr>successes := 1\<rparr>) \<lparr>Date_now = 1300, calls = 3\<rparr>))) = Some 1300 \<and>
   state (run_calls test_config probing (take 1 two_successes)) = HALF_OPEN \<and>
   successes (run_calls test_config probing (take 1 two_successes)) = 1 \<and>
   failures (run_calls test_config probing (take 1 two_successes)) = 3 \<and>
   state (run_calls test_config probing two_successes) = CLOSED \<and>
   failures (run_calls test_config probing two_successes) = 0 \<and>
   successes (run_calls test_config probing two_successes) = 0 \<and>
   totalSuccesses (run_calls test_config probing two_successes) = 2"
proof -
  have h1: "state (probing\<lparr>successes := 1\<rparr>) = HALF_OPEN" and h2: "state probing = HALF_OPEN"
    by (simp_all add: probing_def)
  have f: "fails (mockRejectedValue ''fail'') \<lparr>Date_now = 1300, calls = 3\<rparr>"
    by (simp add: fails_def mockRejectedValue_def)
  have s: "0 < successThreshold test_config \<and> length two_successes = successThreshold test_config \<and>
      (\<forall>(fn, w) \<in> set two_successes. succeeds fn w)"
    by (simp add: test_config_def two_successes_def succeeds_def mockResolvedValue_def)
  have p: "successes probing + length (take 1 two_successes) < successThreshold test_config \<and>
      (\<forall>(fn, w) \<in> set (take 1 two_successes). succeeds fn w)"
    by (simp add: test_config_def two_successes_def succeeds_def mockResolvedValue_def probing_def)
  have w: "Date_now (snd (mockRejectedValue ''fail'' \<lparr>Date_now = 1300, calls = 3\<rparr>)) = 1300"
    by (simp add: mockRejectedValue_def)
  note t1 = half_open_fails_open_succeeds_close[OF h1,
      of "mockRejectedValue ''fail''" "\<lparr>Date_now = 1300, calls = 3\<rparr>" test_config "[]" "[]",
      THEN conjunct1, THEN mp, OF f]
  have a1: "state (fst (snd (execute test_config (mockRejectedValue ''fail'')
      (probing\<lparr>successes := 1\<rparr>) \<lparr>Date_now = 1300, calls = 3\<rparr>))) = OPEN"
    by (rule t1[THEN conjunct1])
  have a2: "lastFailureTime (fst (snd (execute test_config (mockRejectedValue ''fail'')
      (probing\<lparr>successes := 1\<rparr>) \<lparr>Date_now = 1300, calls = 3\<rparr>))) =
     Some (Date_now (snd (mockRejectedValue ''fail'' \<lparr>Date_now = 1300, calls = 3\<rparr>)))"
    by (rule t1[THEN conjunct2, THEN conjunct1])
  note t2 = half_open_fails_open_succeeds_close[OF h2,
      of "mockRejectedValue ''fail''" "\<lparr>Date_now = 1300, calls = 3\<rparr>" test_config two_successes
         "take 1 two_successes"]
  have b: "state (run_calls test_config probing two_successes) = CLOSED \<and>
      failures (run_calls test_config probing two_successes) = 0 \<and>
      successes (run_calls test_config probing two_successes) = 0"
    by (rule t2[THEN conjunct2, THEN conjunct1, THEN mp, OF s])
  have d: "state (run_calls test_config probing (take 1 two_successes)) = HALF_OPEN \<and>
      successes (run_calls test_config probing (take 1 two_successes)) =
        successes probing + length (take 1 two_successes) \<and>
      failures (run_calls test_config probing (take 1 two_successes)) = failures probing"
    by (rule t2[THEN conjunct2, THEN conjunct2, THEN mp, OF p])
  have n: "successes probing + length (take 1 two_successes) = 1" "failures probing = 3"
    by (simp_all add: probing_def two_successes_def)
  have c: "totalSuccesses (run_calls test_config probing two_successes) = 2"
    by (simp add: two_successes_run)
  show ?thesis using a1 a2 b c d unfolding w n by simp
qed

text \<open>
  Claim C8 says that every transition resets both consecutive counters. The third failure of
  the test run takes the breaker from CLOSED to OPEN and leaves the count of failures at 3.
\<close>

theorem trip_keeps_failure_count_counterexample:
  "state (run_calls test_config new_CircuitBreaker (take 2 three_failures)) = CLOSED \<and>
   state (run_calls test_config new_CircuitBreaker three_failures) = OPEN \<and>
   failures (run_calls test_config new_CircuitBreaker three_failures) = 3"
  by (simp add: three_failures_def test_config_def new_CircuitBreaker_def mockRejectedValue_def
      breaker_eval)

theorem transitions_reset_witness:
  "onSuccess test_config (probing\<lparr>successes := 1\<rparr>) =
     \<lparr>state = CLOSED, failures = 0, successes = 0, lastFailureTime = Some 300,
      totalCalls = 4, totalFailures = 3, totalSuccesses = 1\<rparr> \<and>
   state (onFailure test_config \<lparr>Date_now = 300, calls = 3\<rparr> (new_CircuitBreaker\<lparr>failures := 2\<rparr>)) = OPEN \<and>
   failures (onFailure test_config \<lparr>Date_now = 300, calls = 3\<rparr> (new_CircuitBreaker\<lparr>failures := 2\<rparr>)) = 3 \<and>
   successes (onFailure test_config \<lparr>Date_now = 300, calls = 3\<rparr> (new_CircuitBreaker\<lparr>failures := 2\<rparr>)) = 0 \<and>
   snd (execute_gate test_config tripped \<lparr>Date_now = 1300, calls = 3\<rparr>) = probing \<and>
   failures probing = 3 \<and> successes probing = 0"
proof -
  have a: "state (probing\<lparr>successes := 1\<rparr>) = HALF_OPEN \<and>
      state (onSuccess test_config (probing\<lparr>successes := 1\<rparr>)) = CLOSED"
    by (simp add: probing_def onSuccess_def test_config_def close_circuit_def Let_def)
  have b: "state (new_CircuitBreaker\<lparr>failures := 2\<rparr>) \<noteq> OPEN \<and>
      state (onFailure test_config \<lparr>Date_now = 300, calls = 3\<rparr> (new_CircuitBreaker\<lparr>failures := 2\<rparr>)) = OPEN"
    by (simp add: new_CircuitBreaker_def onFailure_def test_config_def open_circuit_def Let_def)
  have c: "snd (execute_gate test_config tripped \<lparr>Date_now = 1300, calls = 3\<rparr>) = probing"
    by (simp add: tripped_def probing_def test_config_def execute_gate_def shouldAttemptReset_def
        Let_def)
  have d: "state tripped = OPEN \<and>
      state (snd (execute_gate test_config tripped \<lparr>Date_now = 1300, calls = 3\<rparr>)) = HALF_OPEN"
    unfolding c by (simp add: tripped_def probing_def)
  have e: "onSuccess test_config (probing\<lparr>successes := 1\<rparr>) =
     \<lparr>state = CLOSED, failures = 0, successes = 0, lastFailureTime = Some 300,
      totalCalls = 4, totalFailures = 3, totalSuccesses = 1\<rparr>"
    by (simp add: probing_def onSuccess_def test_config_def close_circuit_def Let_def)
  have r1: "successes (onFailure test_config \<lparr>Date_now = 300, calls = 3\<rparr> (new_CircuitBreaker\<lparr>failures := 2\<rparr>)) = 0 \<and>
      failures (onFailure test_config \<lparr>Date_now = 300, calls = 3\<rparr> (new_CircuitBreaker\<lparr>failures := 2\<rparr>))
        = failures (new_CircuitBreaker\<lparr>failures := 2\<rparr>) + 1"
    by (rule transitions_reset_what_the_code_resets[of "new_CircuitBreaker\<lparr>failures := 2\<rparr>"
      test_config "\<lparr>Date_now = 300, calls = 3\<rparr>", THEN conjunct2, THEN conjunct1, THEN mp, OF b])
  have r2: "failures (snd (execute_gate test_config tripped \<lparr>Date_now = 1300, calls = 3\<rparr>)) = failures tripped \<and>
      successes (snd (execute_gate test_config tripped \<lparr>Date_now = 1300, calls = 3\<rparr>)) = successes tripped"
    by (rule transitions_reset_what_the_code_resets[of tripped test_config
      "\<lparr>Date_now = 1300, calls = 3\<rparr>", THEN conjunct2, THEN conjunct2, THEN mp, OF d])
  have r3: "failures (onSuccess test_config (probing\<lparr>successes := 1\<rparr>)) = 0 \<and>
      successes (onSuccess test_config (probing\<lparr>successes := 1\<rparr>)) = 0"
    by (rule transitions_reset_what_the_code_resets[of "probing\<lparr>successes := 1\<rparr>" test_config
      "\<lparr>Date_now = 1300, calls = 3\<rparr>", THEN conjunct1, THEN mp, OF a])
  have f: "failures (new_CircuitBreaker\<lparr>failures := 2\<rparr>) + 1 = 3" "failures tripped = 3"
    "successes tripped = 0"
    by (simp_all add: new_CircuitBreaker_def tripped_def)
  show ?thesis using r1 r2 r3 b e unfolding c f by simp
qed

theorem rejected_call_witness:
  "execute test_config (mockResolvedValue ''success'') tripped \<lparr>Date_now = 400, calls = 3\<rparr> =
     (Inl (Error ''[CircuitBreaker:test] Circuit is OPEN - service unavailable''),
      \<lparr>state = OPEN, failures = 3, successes = 0, lastFailureTime = Some 300,
       totalCalls = 4, totalFailures = 3, totalSuccesses = 0\<rparr>,
      \<lparr>Date_now = 400, calls = 3\<rparr>) \<and>
   accounted tripped \<and>
   accounted (run_command test_config tripped
      (Execute (mockResolvedValue ''success'') \<lparr>Date_now = 400, calls = 3\<rparr>))"
proof -
  have a: "state tripped = OPEN \<and> \<not> shouldAttemptReset test_config tripped \<lparr>Date_now = 400, calls = 3\<rparr>"
    by (simp add: tripped_def shouldAttemptReset_def test_config_def)
  have b: "accounted tripped" by (simp add: accounted_def tripped_def)
  have c: "handleOpenCircuit test_config \<lparr>Date_now = 400, calls = 3\<rparr> =
      (Inl (Error ''[CircuitBreaker:test] Circuit is OPEN - service unavailable''),
       \<lparr>Date_now = 400, calls = 3\<rparr>)"
    by (simp add: handleOpenCircuit_def circuit_open_error_def test_config_def)
  have d: "tripped\<lparr>totalCalls := totalCalls tripped + 1\<rparr> =
      \<lparr>state = OPEN, failures = 3, successes = 0, lastFailureTime = Some 300,
       totalCalls = 4, totalFailures = 3, totalSuccesses = 0\<rparr>"
    by (simp add: tripped_def)
  note t = rejected_call_only_counts_the_call[of tripped test_config "\<lparr>Date_now = 400, calls = 3\<rparr>"
      "mockResolvedValue ''success''"
      "Execute (mockResolvedValue ''success'') \<lparr>Date_now = 400, calls = 3\<rparr>" "[]"]
  have r1: "execute test_config (mockResolvedValue ''success'') tripped \<lparr>Date_now = 400, calls = 3\<rparr> =
        (fst (handleOpenCircuit test_config \<lparr>Date_now = 400, calls = 3\<rparr>),
         tripped\<lparr>totalCalls := totalCalls tripped + 1\<rparr>,
         snd (handleOpenCircuit test_config \<lparr>Date_now = 400, calls = 3\<rparr>))"
    by (rule t[THEN conjunct1, THEN mp, OF a])
  have r2: "accounted (run_command test_config tripped
      (Execute (mockResolvedValue ''success'') \<lparr>Date_now = 400, calls = 3\<rparr>))"
    by (rule t[THEN conjunct2, THEN conjunct1, THEN mp, OF b])
  show ?thesis using r1 r2 b unfolding c d by simp
qed

section \<open>The retry executor: attempts and delays\<close>


lemma retry_loop_returns:
  "attempt \<le> maxRetries cfg \<Longrightarrow> fn w = (Inr v, w') \<Longrightarrow>
   retry_loop sleep cfg fn attempt delay le n slept w =
     \<lparr>outcome = Inr v, invocations = n + 1, sleeps = slept, final = w'\<rparr>"
  by (subst retry_loop.simps) simp

lemma retry_loop_throws:
  "attempt \<le> maxRetries cfg \<Longrightarrow> fn w = (Inl err, w') \<Longrightarrow>
   maxRetries cfg \<le> attempt \<or> \<not> retryable cfg err \<Longrightarrow>
   retry_loop sleep cfg fn attempt delay le n slept w =
     \<lparr>outcome = Inl (Some err), invocations = n + 1, sleeps = slept, final = w'\<rparr>"
  by (subst retry_loop.simps) (auto simp: retryable_def split: option.splits)

lemma retry_loop_retries:
  "attempt < maxRetries cfg \<Longrightarrow> fn w = (Inl err, w') \<Longrightarrow> retryable cfg err \<Longrightarrow>
   retry_loop sleep cfg fn attempt delay le n slept w =
     retry_loop sleep cfg fn (attempt + 1) (min (delay * backoffMultiplier cfg) (maxDelay cfg))
       (Some err) (n + 1) (slept @ [delay]) (sleep delay w')"
  by (subst retry_loop.simps) (auto simp: retryable_def split: option.splits)


lemma retry_loop_trace:
  "attempt \<le> maxRetries cfg \<Longrightarrow> delay = spec_delay cfg attempt \<Longrightarrow> n = attempt \<Longrightarrow>
   slept = map (spec_delay cfg) [0..<attempt] \<Longrightarrow>
   1 \<le> invocations (retry_loop sleep cfg fn attempt delay le n slept w) \<and>
   sleeps (retry_loop sleep cfg fn attempt delay le n slept w) =
     map (spec_delay cfg) [0..<invocations (retry_loop sleep cfg fn attempt delay le n slept w) - 1]"
proof (induction "maxRetries cfg - attempt" arbitrary: attempt delay le n slept w)
  case 0
  then have a: "attempt \<le> maxRetries cfg" and m: "maxRetries cfg \<le> attempt" by simp_all
  obtain r w' where f: "fn w = (r, w')" by (cases "fn w")
  show ?case
  proof (cases r)
    case (Inr v)
    with a f 0 show ?thesis by (simp add: retry_loop_returns)
  next
    case (Inl err)
    with a f m 0 show ?thesis by (simp add: retry_loop_throws)
  qed
next
  case (Suc k)
  then have a: "attempt \<le> maxRetries cfg" by simp
  obtain r w' where f: "fn w = (r, w')" by (cases "fn w")
  show ?case
  proof (cases r)
    case (Inr v)
    with a f Suc.prems show ?thesis by (simp add: retry_loop_returns)
  next
    case (Inl err)
    show ?thesis
    proof (cases "maxRetries cfg \<le> attempt \<or> \<not> retryable cfg err")
      case True
      with a f Inl Suc.prems show ?thesis by (simp add: retry_loop_throws)
    next
      case False
      then have lt: "attempt < maxRetries cfg" and re: "retryable cfg err" by auto
      have k: "k = maxRetries cfg - (attempt + 1)" using Suc.hyps(2) by simp
      have le': "attempt + 1 \<le> maxRetries cfg" using lt by simp
      have d: "min (delay * backoffMultiplier cfg) (maxDelay cfg) = spec_delay cfg (attempt + 1)"
        using Suc.prems(2) by simp
      have s: "slept @ [delay] = map (spec_delay cfg) [0..<attempt + 1]"
        using Suc.prems(2,4) by simp
      have n: "n + 1 = attempt + 1" using Suc.prems(3) by simp
      from Suc.hyps(1)[OF k le' d n s]
      show ?thesis using f Inl by (simp add: retry_loop_retries[OF lt _ re])
    qed
  qed
qed


lemma spec_delay_le_max:
  "initialDelay cfg \<le> maxDelay cfg \<Longrightarrow> spec_delay cfg i \<le> maxDelay cfg"
  by (cases i) simp_all

lemma spec_delay_nonneg:
  "0 \<le> initialDelay cfg \<Longrightarrow> initialDelay cfg \<le> maxDelay cfg \<Longrightarrow> 1 \<le> backoffMultiplier cfg
     \<Longrightarrow> 0 \<le> spec_delay cfg i"
  by (induction i) (auto simp: min_def)

lemma spec_delay_step:
  assumes "0 \<le> initialDelay cfg" "initialDelay cfg \<le> maxDelay cfg" "1 \<le> backoffMultiplier cfg"
  shows "spec_delay cfg i \<le> spec_delay cfg (Suc i)"
proof -
  have n: "0 \<le> spec_delay cfg i" by (rule spec_delay_nonneg[OF assms])
  have "spec_delay cfg i * 1 \<le> spec_delay cfg i * backoffMultiplier cfg"
    using n assms(3) by (intro mult_left_mono) simp_all
  then show ?thesis using spec_delay_le_max[OF assms(2), of i] by simp
qed

lemma spec_delay_mono:
  assumes "0 \<le> initialDelay cfg" "initialDelay cfg \<le> maxDelay cfg" "1 \<le> backoffMultiplier cfg"
  shows "i \<le> j \<Longrightarrow> spec_delay cfg i \<le> spec_delay cfg j"
  using lift_Suc_mono_le[of "spec_delay cfg" i j] spec_delay_step[OF assms] by blast

lemma sorted_spec_delays:
  assumes "0 \<le> initialDelay cfg" "initialDelay cfg \<le> maxDelay cfg" "1 \<le> backoffMultiplier cfg"
  shows "sorted (map (spec_delay cfg) [0..<n])"
  by (auto simp: sorted_iff_nth_mono intro!: spec_delay_mono[OF assms])


text \<open>
  Claim C7, as the code has it. The durations slept in a run are the first
  \<open>invocations - 1\<close> terms of the sequence that starts at \<open>initialDelay\<close> and goes from one
  term to the next by multiplying and capping at \<open>maxDelay\<close>. Once
  \<open>initialDelay \<le> maxDelay\<close>, every one of them is at most \<open>maxDelay\<close>. They never
  decrease when the multiplier is at least 1 and \<open>0 \<le> initialDelay \<le> maxDelay\<close>.
\<close>

theorem sleeps_follow_capped_backoff:
  "sleeps (withRetry sleep cfg fn w) =
     map (spec_delay cfg) [0..<invocations (withRetry sleep cfg fn w) - 1] \<and>
   (initialDelay cfg \<le> maxDelay cfg \<longrightarrow>
      (\<forall>d \<in> set (sleeps (withRetry sleep cfg fn w)). d \<le> maxDelay cfg)) \<and>
   (1 \<le> backoffMultiplier cfg \<and> 0 \<le> initialDelay cfg \<and> initialDelay cfg \<le> maxDelay cfg \<longrightarrow>
      sorted (sleeps (withRetry sleep cfg fn w)))"
proof -
  have t: "sleeps (withRetry sleep cfg fn w) =
     map (spec_delay cfg) [0..<invocations (withRetry sleep cfg fn w) - 1]"
    using retry_loop_trace[of 0 cfg "initialDelay cfg" 0 "[]" sleep fn None w]
    by (simp add: withRetry_def)
  show ?thesis
  proof (intro conjI impI)
    show "sleeps (withRetry sleep cfg fn w) =
       map (spec_delay cfg) [0..<invocations (withRetry sleep cfg fn w) - 1]" by (rule t)
  next
    assume "initialDelay cfg \<le> maxDelay cfg"
    then show "\<forall>d \<in> set (sleeps (withRetry sleep cfg fn w)). d \<le> maxDelay cfg"
      by (subst t) (auto simp: spec_delay_le_max)
  next
    assume "1 \<le> backoffMultiplier cfg \<and> 0 \<le> initialDelay cfg \<and> initialDelay cfg \<le> maxDelay cfg"
    then show "sorted (sleeps (withRetry sleep cfg fn w))"
      by (subst t) (simp add: sorted_spec_delays)
  qed
qed

subsection \<open>The runs of the retry scenarios\<close>

lemmas retry_eval =
  withRetry_def retry_loop.simps DEFAULT_RETRY_CONFIG_def always_failing_def no_sleep_def
  show_nat.simps digit_char_def

lemma always_failing_run:
  "withRetry no_sleep DEFAULT_RETRY_CONFIG always_failing 0 =
     \<lparr>outcome = Inl (Some ''fail 4''), invocations = 4, sleeps = [1000, 2000, 4000], final = 4\<rparr>"
  by (simp add: retry_eval)


theorem sleeps_follow_capped_backoff_witness:
  "sleeps (withRetry no_sleep DEFAULT_RETRY_CONFIG always_failing 0) = [1000, 2000, 4000] \<and>
   list_all (\<lambda>d. d \<le> maxDelay (DEFAULT_RETRY_CONFIG :: string RetryConfig))
     (sleeps (withRetry no_sleep DEFAULT_RETRY_CONFIG always_failing 0)) \<and>
   sorted (sleeps (withRetry no_sleep DEFAULT_RETRY_CONFIG always_failing 0))"
proof -
  have a: "initialDelay (DEFAULT_RETRY_CONFIG :: string RetryConfig)
      \<le> maxDelay (DEFAULT_RETRY_CONFIG :: string RetryConfig)"
    by (simp add: DEFAULT_RETRY_CONFIG_def)
  have b: "1 \<le> backoffMultiplier (DEFAULT_RETRY_CONFIG :: string RetryConfig) \<and>
      0 \<le> initialDelay (DEFAULT_RETRY_CONFIG :: string RetryConfig) \<and>
      initialDelay (DEFAULT_RETRY_CONFIG :: string RetryConfig)
        \<le> maxDelay (DEFAULT_RETRY_CONFIG :: string RetryConfig)"
    by (simp add: DEFAULT_RETRY_CONFIG_def)
  note t = sleeps_follow_capped_backoff[of no_sleep DEFAULT_RETRY_CONFIG always_failing 0]
  have r1: "\<forall>d \<in> set (sleeps (withRetry no_sleep DEFAULT_RETRY_CONFIG always_failing 0)).
      d \<le> maxDelay (DEFAULT_RETRY_CONFIG :: string RetryConfig)"
    by (rule t[THEN conjunct2, THEN conjunct1, THEN mp, OF a])
  have r2: "sorted (sleeps (withRetry no_sleep DEFAULT_RETRY_CONFIG always_failing 0))"
    by (rule t[THEN conjunct2, THEN conjunct2, THEN mp, OF b])
  have r3: "sleeps (withRetry no_sleep DEFAULT_RETRY_CONFIG always_failing 0) = [1000, 2000, 4000]"
    by (simp add: always_failing_run)
  show ?thesis using r1 r2 r3 by (simp only: list_all_iff)
qed

text \<open>
  Claim C7 says that the durations never decrease as soon as the multiplier is at least 1.
  With the default multiplier 2 and default cap 10000, a first delay of 20000 is followed by
  10000; and a negative first delay is followed by smaller ones.
\<close>

theorem late_start_delays_decrease_counterexample:
  "1 \<le> backoffMultiplier late_start_config \<and>
   sleeps (withRetry no_sleep late_start_config always_failing 0) = [20000, 10000, 10000] \<and>
   \<not> sorted (sleeps (withRetry no_sleep late_start_config always_failing 0)) \<and>
   initialDelay negative_start_config \<le> maxDelay negative_start_config \<and>
   sleeps (withRetry no_sleep negative_start_config always_failing 0) = [- 1000, - 2000, - 4000]"
  by (simp add: late_start_config_def negative_start_config_def retry_eval)

section \<open>The adapter: provider chain and cache\<close>




lemma getFromCache_clock: "Date_now (snd (getFromCache cfg key w)) = Date_now w"
  by (auto simp: getFromCache_def Let_def split: option.splits)

lemma chatSync_miss_admitted:
  assumes "fst (getFromCache cfg (getCacheKey ext msgs) w) \<in> {None, Some []}"
    and "circuitBreakerEnabled cfg \<longrightarrow>
           state b \<noteq> OPEN \<or> shouldAttemptReset (adapter_breaker_config cfg) b w"
    and "circuitBreakerEnabled cfg \<longrightarrow>
           settles_in_time ext cfg msgs (getCacheKey ext msgs)
             (snd (getFromCache cfg (getCacheKey ext msgs) w))"
  shows "fst (chatSync ext cfg msgs b w) =
           fst (executeWithFallbacks ext cfg msgs (getCacheKey ext msgs)
                  (snd (getFromCache cfg (getCacheKey ext msgs) w)))"
    and "snd (snd (chatSync ext cfg msgs b w)) =
           snd (executeWithFallbacks ext cfg msgs (getCacheKey ext msgs)
                  (snd (getFromCache cfg (getCacheKey ext msgs) w)))"
proof -
  define key where "key = getCacheKey ext msgs"
  define w1 where "w1 = snd (getFromCache cfg key w)"
  obtain c where g: "getFromCache cfg key w = (c, w1)" by (cases "getFromCache cfg key w") (simp add: w1_def)
  from assms(1) g have miss: "c = None \<or> c = Some []" by (auto simp: key_def)
  obtain r w2 where e: "executeWithFallbacks ext cfg msgs key w1 = (r, w2)"
    by (cases "executeWithFallbacks ext cfg msgs key w1")
  have sh: "shouldAttemptReset (adapter_breaker_config cfg) (b\<lparr>totalCalls := totalCalls b + 1\<rparr>) w1
      = shouldAttemptReset (adapter_breaker_config cfg) b w"
    using getFromCache_clock[of cfg key w] by (simp add: shouldAttemptReset_def w1_def split: option.splits)
  have "fst (chatSync ext cfg msgs b w) = r \<and> snd (snd (chatSync ext cfg msgs b w)) = w2"
  proof (cases "circuitBreakerEnabled cfg")
    case False
    with g miss e show ?thesis by (auto simp: chatSync_def key_def[symmetric])
  next
    case True
    with assms(2) have adm: "state b \<noteq> OPEN \<or> shouldAttemptReset (adapter_breaker_config cfg) b w"
      by simp
    have gate: "fst (execute_gate (adapter_breaker_config cfg) b w1)"
      using adm sh by (auto simp: execute_gate_def Let_def)
    have st: "settles_in_time ext cfg msgs key w1"
      using assms(3) True by (simp add: key_def w1_def)
    have "fst (execute (adapter_breaker_config cfg) (guarded_chain ext cfg msgs key) b w1) = r \<and>
          snd (snd (execute (adapter_breaker_config cfg) (guarded_chain ext cfg msgs key) b w1)) = w2"
      using gate e st
      by (cases "execute_gate (adapter_breaker_config cfg) b w1"; cases r)
         (auto simp: execute_def execute_run_def executeWithTimeout_def guarded_chain_def)
    with True g miss show ?thesis by (auto simp: chatSync_def key_def[symmetric])
  qed
  with e show "fst (chatSync ext cfg msgs b w) =
           fst (executeWithFallbacks ext cfg msgs (getCacheKey ext msgs)
                  (snd (getFromCache cfg (getCacheKey ext msgs) w)))"
    and "snd (snd (chatSync ext cfg msgs b w)) =
           snd (executeWithFallbacks ext cfg msgs (getCacheKey ext msgs)
                  (snd (getFromCache cfg (getCacheKey ext msgs) w)))"
    by (simp_all add: key_def w1_def)
qed




subsection \<open>A stored answer is served until it expires\<close>

lemma Map_get_set: "Map_get k (Map_set k v m) = Some v"
  by (induction m) (auto simp: Map_get_def)

lemma Map_get_delete_other: "k' \<noteq> k \<Longrightarrow> Map_get k (Map_delete k' m) = Map_get k m"
  by (induction m) (auto simp: Map_get_def Map_delete_def)

lemma Map_set_new_length: "Map_get k m = None \<Longrightarrow> length (Map_set k v m) = Suc (length m)"
  by (induction m) (auto simp: Map_get_def split: if_splits)

lemma Map_set_old_length: "Map_get k m \<noteq> None \<Longrightarrow> length (Map_set k v m) = length m"
  by (induction m) (auto simp: Map_get_def split: if_splits)

lemma Map_set_first:
  "Map_get k m = None \<Longrightarrow> m \<noteq> [] \<Longrightarrow> Map_set k v m = (k0, e0) # rest \<Longrightarrow> k0 \<noteq> k"
  by (cases m) (auto simp: Map_get_def split: if_splits)

lemma setCache_stores:
  assumes "length (cache w) \<le> 1000"
  shows "Map_get key (cache (setCache key resp w)) =
           Some \<lparr>response = resp, timestamp = Date_now w\<rparr>"
proof (cases "Map_get key (cache w) = None")
  case False
  then have "length (Map_set key \<lparr>response = resp, timestamp = Date_now w\<rparr> (cache w)) \<le> 1000"
    using assms by (simp add: Map_set_old_length)
  then show ?thesis by (simp add: setCache_def Let_def Map_get_set)
next
  case True
  show ?thesis
  proof (cases "cache w = []")
    case True
    then show ?thesis by (simp add: setCache_def Let_def Map_get_def)
  next
    case False
    define c where "c = Map_set key \<lparr>response = resp, timestamp = Date_now w\<rparr> (cache w)"
    have g: "Map_get key c = Some \<lparr>response = resp, timestamp = Date_now w\<rparr>"
      by (simp add: c_def Map_get_set)
    obtain k0 e0 rest where s: "c = (k0, e0) # rest"
      using g by (cases c) (auto simp: Map_get_def)
    have n: "k0 \<noteq> key"
      using Map_set_first[OF True False] s by (simp add: c_def)
    have d: "Map_get key (Map_delete k0 c) = Some \<lparr>response = resp, timestamp = Date_now w\<rparr>"
      using n g by (simp add: Map_get_delete_other)
    have "cache (setCache key resp w) = c \<or> cache (setCache key resp w) = Map_delete k0 c"
      unfolding setCache_def Let_def c_def[symmetric] by (simp add: s)
    then show ?thesis using g d by auto
  qed
qed

lemma chatSync_hit:
  assumes "cacheEnabled cfg" and "Map_get (getCacheKey ext msgs) (cache w) = Some e"
    and "response e \<noteq> []"
    and "real_of_int (Date_now w - timestamp e) / 1000 \<le> cacheTTLSeconds cfg"
  shows "chatSync ext cfg msgs b w = (Inr (response e), b, w)"
  using assms by (simp add: chatSync_def getFromCache_def Let_def)

text \<open>
  The working part of claim C3: when a request that misses the cache is let through and
  answered in time by the primary model with a non-empty text, the same request made within the
  time to live, on the cache the first call left, is answered from the cache: no model is
  called and the breaker is not touched.
\<close>

lemma second_call_served_from_cache:
  assumes "cacheEnabled cfg"
    and "fst (getFromCache cfg (getCacheKey ext msgs) w) \<in> {None, Some []}"
    and "circuitBreakerEnabled cfg \<longrightarrow>
           state b \<noteq> OPEN \<or> shouldAttemptReset (adapter_breaker_config cfg) b w"
    and "circuitBreakerEnabled cfg \<longrightarrow>
           settles_in_time ext cfg msgs (getCacheKey ext msgs)
             (snd (getFromCache cfg (getCacheKey ext msgs) w))"
    and "callModel ext (primaryModel cfg) msgs (snd (getFromCache cfg (getCacheKey ext msgs) w))
           = (Inr r, w')"
    and "r \<noteq> []" and "length (cache w') \<le> 1000"
    and "cache w2 = cache (snd (snd (chatSync ext cfg msgs b w)))"
    and "real_of_int (Date_now w2 - Date_now w') / 1000 \<le> cacheTTLSeconds cfg"
  shows "fst (chatSync ext cfg msgs b w) = Inr r \<and>
         chatSync ext cfg msgs b2 w2 = (Inr r, b2, w2)"
proof -
  define key where "key = getCacheKey ext msgs"
  note m = chatSync_miss_admitted[OF assms(2,3,4), folded key_def]
  have e: "executeWithFallbacks ext cfg msgs key (snd (getFromCache cfg key w)) =
      (Inr r, setCache key r w')"
    using assms(1,5) by (simp add: executeWithFallbacks_def key_def)
  have c: "Map_get key (cache w2) = Some \<lparr>response = r, timestamp = Date_now w'\<rparr>"
    using assms(8) m(2) e setCache_stores[OF assms(7)] by (simp add: key_def)
  have "chatSync ext cfg msgs b2 w2 =
      (Inr (response \<lparr>response = r, timestamp = Date_now w'\<rparr>), b2, w2)"
    using assms(6,9) by (intro chatSync_hit[OF assms(1) c[unfolded key_def]]) simp_all
  then show ?thesis using m(1) e by simp
qed

subsection \<open>The runs of the adapter scenarios\<close>

lemmas adapter_eval =
  chatSync_def getFromCache_def getCacheKey_def setCache_def test_adapter_config_def
  test_messages_def mock_stringify_def empty_gateway_def Map_get_def Map_delete_def
  execute_def execute_gate_def execute_run_def executeWithTimeout_def onSuccess_def onFailure_def
  open_circuit_def close_circuit_def shouldAttemptReset_def handleOpenCircuit_def
  circuit_open_error_def adapter_breaker_config_def guarded_chain_def executeWithFallbacks_def
  callModel_def provider_of_def modelName_of_def new_CircuitBreaker_def Let_def
  settles_in_time_def timeout_error_def show_nat.simps digit_char_def



text \<open>
  Claim C3 at a provider that answers with the empty text, which \<open>callOllama\<close> itself
  produces for a reply without content. The first call stores the empty answer; the second
  call, one second later with the same messages, finds it, takes it for a miss, goes
  through the breaker and calls the provider again.
\<close>

theorem empty_reply_is_fetched_twice:
  "chatSync (mock_externals []) test_adapter_config test_messages new_CircuitBreaker
     (empty_gateway 1000) =
     (Inr [],
      \<lparr>state = CLOSED, failures = 0, successes = 0, lastFailureTime = None,
       totalCalls = 1, totalFailures = 0, totalSuccesses = 1\<rparr>,
      \<lparr>Date_now = 1000, cache = [(''user:Test;'', \<lparr>response = [], timestamp = 1000\<rparr>)],
       fetchCalls = 1\<rparr>) \<and>
   getFromCache test_adapter_config ''user:Test;''
     \<lparr>Date_now = 2000, cache = [(''user:Test;'', \<lparr>response = [], timestamp = 1000\<rparr>)],
      fetchCalls = 1\<rparr> =
     (Some [],
      \<lparr>Date_now = 2000, cache = [(''user:Test;'', \<lparr>response = [], timestamp = 1000\<rparr>)],
       fetchCalls = 1\<rparr>) \<and>
   chatSync (mock_externals []) test_adapter_config test_messages
     \<lparr>state = CLOSED, failures = 0, successes = 0, lastFailureTime = None,
      totalCalls = 1, totalFailures = 0, totalSuccesses = 1\<rparr>
     \<lparr>Date_now = 2000, cache = [(''user:Test;'', \<lparr>response = [], timestamp = 1000\<rparr>)],
      fetchCalls = 1\<rparr> =
     (Inr [],
      \<lparr>state = CLOSED, failures = 0, successes = 0, lastFailureTime = None,
       totalCalls = 2, totalFailures = 0, totalSuccesses = 2\<rparr>,
      \<lparr>Date_now = 2000, cache = [(''user:Test;'', \<lparr>response = [], timestamp = 2000\<rparr>)],
       fetchCalls = 2\<rparr>)"
  by (simp add: adapter_eval mock_externals_def)

end
